theory Spec2Isabelle
  imports Main "HOL-Library.Sublist"
begin

section \<open>Git refs: \<open>app/src/lib/git/refs.ts\<close>\<close>

text \<open>
  \<open>formatAsLocalRef\<close> qualifies a local branch name. A JavaScript string is a
  sequence of code units; it is modelled as a list of characters, \<open>startsWith\<close> as
  the list prefix test and a template literal as concatenation.
\<close>

definition startsWith :: "string \<Rightarrow> string \<Rightarrow> bool" where
  "startsWith name searchString = prefix searchString name"

definition formatAsLocalRef :: "string \<Rightarrow> string" where
  "formatAsLocalRef name =
     (if startsWith name ''heads/'' then ''refs/'' @ name else ''refs/heads/'' @ name)"

section \<open>The pull request coordinator: \<open>app/src/lib/stores/pull-request-coordinator.ts\<close>\<close>

subsection \<open>Models the coordinator reads\<close>

text \<open>
  The model classes live outside the verified files; only the fields that the verified
  code reads are kept. The type of \<open>dbID\<close> is a parameter \<open>'id\<close>: the coordinator
  only compares identifiers with \<open>===\<close>, which is equality on every identifier the
  database hands out. A \<open>null\<close> reference is \<open>None\<close>.
\<close>

datatype 'id GitHubRepository =
  GitHubRepository (dbID: 'id) (endpoint: string) (parent: "'id GitHubRepository option")

record 'id Repository =
  path :: string
  gitHubRepository :: "'id GitHubRepository option"

text \<open>
  Modelled from the spec: \<open>isRepositoryWithGitHubRepository\<close> is defined in
  \<open>models/repository\<close>, which is not among the verified files. The spec describes the
  snapshot it filters as the local repositories that currently have a remote repository
  association, so the guard holds exactly when \<open>gitHubRepository\<close> is not \<open>null\<close>.
\<close>

definition isRepositoryWithGitHubRepository :: "'id Repository \<Rightarrow> bool" where
  "isRepositoryWithGitHubRepository repository = (gitHubRepository repository \<noteq> None)"

text \<open>
  Reading a property of \<open>null\<close> throws a \<open>TypeError\<close> in JavaScript. The static type
  \<open>RepositoryWithGitHubRepository\<close> promises a remote, but it is erased at run time, so
  the model keeps the throwing branch. \<open>Thrown\<close> is any other exception, by its
  message: what a callback of the application may throw.
\<close>

datatype error = TypeError | Thrown string

subsection \<open>\<open>findRepositoriesForGitHubRepository\<close>\<close>

text \<open>The arrow function handed to \<open>filter\<close>, with \<open>dbID\<close> already destructured.\<close>

definition matchesDbID :: "'id \<Rightarrow> 'id Repository \<Rightarrow> error + bool" where
  "matchesDbID d r =
     (case gitHubRepository r of
        None \<Rightarrow> Inl TypeError
      | Some g \<Rightarrow>
          Inr (dbID g = d \<or> (case parent g of None \<Rightarrow> False | Some p \<Rightarrow> dbID p = d)))"

text \<open>
  \<open>Array.prototype.filter\<close> with a callback that may throw: elements are visited in
  order, the first exception aborts the call, the kept elements keep their order.
\<close>

fun filterArray :: "('a \<Rightarrow> error + bool) \<Rightarrow> 'a list \<Rightarrow> error + 'a list" where
  "filterArray p [] = Inr []"
| "filterArray p (x # xs) =
     (case p x of
        Inl e \<Rightarrow> Inl e
      | Inr b \<Rightarrow>
          (case filterArray p xs of
             Inl e \<Rightarrow> Inl e
           | Inr ys \<Rightarrow> Inr (if b then x # ys else ys)))"

definition findRepositoriesForGitHubRepository ::
  "'id GitHubRepository \<Rightarrow> 'id Repository list \<Rightarrow> error + 'id Repository list" where
  "findRepositoriesForGitHubRepository gitHubRepo repos =
     filterArray (matchesDbID (dbID gitHubRepo)) repos"

text \<open>
  The association of the specification, in its own words: a remote repository \<open>R\<close> is
  for a local repository \<open>L\<close> when \<open>L\<close>'s remote has \<open>R\<close>'s \<open>dbID\<close>, or \<open>L\<close>'s remote has
  a parent whose \<open>dbID\<close> is \<open>R\<close>'s.
\<close>

definition spec_isFor :: "'id GitHubRepository \<Rightarrow> 'id Repository \<Rightarrow> bool" where
  "spec_isFor R L =
     (case gitHubRepository L of
        None \<Rightarrow> False
      | Some g \<Rightarrow>
          dbID g = dbID R \<or> (case parent g of None \<Rightarrow> False | Some p \<Rightarrow> dbID p = dbID R))"

definition spec_matchSet :: "'id GitHubRepository \<Rightarrow> 'id Repository list \<Rightarrow> 'id Repository set" where
  "spec_matchSet R S = {L \<in> set S. spec_isFor R L}"

text \<open>
  The snapshots the coordinator is typed to hold: every entry has a remote
  repository.
\<close>

definition hasRemote :: "'id Repository list \<Rightarrow> bool" where
  "hasRemote S = list_all (\<lambda>L. gitHubRepository L \<noteq> None) S"

subsection \<open>The coordinator and what it touches\<close>

text \<open>
  The two private fields of \<open>PullRequestCoordinator\<close>. A \<open>PullRequestUpdater\<close> object
  is referred to by its identity, the number of updaters constructed before it.
\<close>

record 'id PullRequestCoordinator =
  currentPullRequestUpdater :: "nat option"
  repositories :: "'id Repository list"

definition newPullRequestCoordinator :: "'id PullRequestCoordinator" where
  "newPullRequestCoordinator = \<lparr>currentPullRequestUpdater = None, repositories = []\<rparr>"

text \<open>The handler the constructor registers with the repositories store.\<close>

definition onDidUpdate ::
  "'id Repository list \<Rightarrow> 'id PullRequestCoordinator \<Rightarrow> 'id PullRequestCoordinator" where
  "onDidUpdate allRepositories this =
     this\<lparr>repositories := filter isRepositoryWithGitHubRepository allRepositories\<rparr>"

text \<open>
  A callback of the application returns nothing: it acts on whatever it acts on, \<open>'w\<close>.
  It either returns normally, \<open>Inr\<close> of what it left behind, or throws, \<open>Inl\<close> of the
  exception and of what it had done by then.
\<close>

type_synonym 'w completion = "(error \<times> 'w) + 'w"

text \<open>
  A \<open>for ... of\<close> loop with no \<open>try\<close> around it: the body runs on the elements in order,
  and the first exception leaves the loop.
\<close>

fun forOf :: "('a \<Rightarrow> 'w \<Rightarrow> 'w completion) \<Rightarrow> 'a list \<Rightarrow> 'w \<Rightarrow> 'w completion" where
  "forOf body [] w = Inr w"
| "forOf body (x # xs) w =
     (case body x w of
        Inl thrown \<Rightarrow> Inl thrown
      | Inr w' \<Rightarrow> forOf body xs w')"

text \<open>
  \<open>onPullRequestsChanged fn\<close> and \<open>onIsLoadingPullRequests fn\<close> register a handler
  with the pull request store. The model is that handler: it runs when the store emits
  an event, reads \<open>this.repositories\<close> at that moment and calls \<open>fn\<close> in a \<open>for\<close> loop.
  Nothing is caught: an exception of the search or of \<open>fn\<close> leaves the handler.
\<close>

definition onPullRequestsChanged ::
  "('id Repository \<Rightarrow> 'pr list \<Rightarrow> 'w \<Rightarrow> 'w completion) \<Rightarrow> 'id PullRequestCoordinator \<Rightarrow>
   'id GitHubRepository \<Rightarrow> 'pr list \<Rightarrow> 'w \<Rightarrow> 'w completion" where
  "onPullRequestsChanged fn this ghRepo pullRequests w =
     (case findRepositoriesForGitHubRepository ghRepo (repositories this) of
        Inl e \<Rightarrow> Inl (e, w)
      | Inr repos \<Rightarrow> forOf (\<lambda>repo. fn repo pullRequests) repos w)"

definition onIsLoadingPullRequests ::
  "('id Repository \<Rightarrow> bool \<Rightarrow> 'w \<Rightarrow> 'w completion) \<Rightarrow> 'id PullRequestCoordinator \<Rightarrow>
   'id GitHubRepository \<Rightarrow> bool \<Rightarrow> 'w \<Rightarrow> 'w completion" where
  "onIsLoadingPullRequests fn this ghRepo pullRequests w =
     (case findRepositoriesForGitHubRepository ghRepo (repositories this) of
        Inl e \<Rightarrow> Inl (e, w)
      | Inr repos \<Rightarrow> forOf (\<lambda>repo. fn repo pullRequests) repos w)"

text \<open>
  The pull request store is an external collaborator: its two operations that the
  coordinator delegates to are parameters. \<open>'r\<close> is whatever the store's refresh
  returns (a promise, which may reject).
\<close>

record ('id, 'acct, 'pr, 'r) PullRequestStore =
  store_refreshPullRequests :: "'id GitHubRepository option \<Rightarrow> 'acct \<Rightarrow> 'r"
  store_getAll :: "'id GitHubRepository option \<Rightarrow> 'pr list"

definition refreshPullRequests ::
  "('id, 'acct, 'pr, 'r) PullRequestStore \<Rightarrow> 'id Repository \<Rightarrow> 'acct \<Rightarrow> 'r" where
  "refreshPullRequests pullRequestStore repository account =
     store_refreshPullRequests pullRequestStore (gitHubRepository repository) account"

definition getAllPullRequests ::
  "('id, 'acct, 'pr, 'r) PullRequestStore \<Rightarrow> 'id Repository \<Rightarrow> 'pr list" where
  "getAllPullRequests pullRequestStore repository =
     store_getAll pullRequestStore (gitHubRepository repository)"

text \<open>
  What the coordinator does to \<open>PullRequestUpdater\<close> objects and to the registered
  callbacks is observed as logs: every constructor call, \<open>start()\<close> and \<open>stop()\<close>, and
  every callback invocation, in program order.
\<close>

datatype ('id, 'acct) updaterCall =
  New nat "'id GitHubRepository option" 'acct
| Start nat
| Stop nat

datatype ('id, 'pr) notification =
  PullRequestsChangedFor "'id Repository" "'pr list"
| IsLoadingFor "'id Repository" bool

record ('id, 'acct, 'pr) environment =
  constructed :: nat
  updaterCalls :: "('id, 'acct) updaterCall list"
  notifications :: "('id, 'pr) notification list"

definition newPullRequestUpdater ::
  "'id GitHubRepository option \<Rightarrow> 'acct \<Rightarrow> ('id, 'acct, 'pr) environment \<Rightarrow>
   nat \<times> ('id, 'acct, 'pr) environment" where
  "newPullRequestUpdater ghRepo account env =
     (constructed env,
      env\<lparr>constructed := Suc (constructed env),
          updaterCalls := updaterCalls env @ [New (constructed env) ghRepo account]\<rparr>)"

definition start :: "nat \<Rightarrow> ('id, 'acct, 'pr) environment \<Rightarrow> ('id, 'acct, 'pr) environment" where
  "start u env = env\<lparr>updaterCalls := updaterCalls env @ [Start u]\<rparr>"

definition stop :: "nat \<Rightarrow> ('id, 'acct, 'pr) environment \<Rightarrow> ('id, 'acct, 'pr) environment" where
  "stop u env = env\<lparr>updaterCalls := updaterCalls env @ [Stop u]\<rparr>"

type_synonym ('id, 'acct, 'pr) state =
  "'id PullRequestCoordinator \<times> ('id, 'acct, 'pr) environment"

definition stopPullRequestUpdater :: "('id, 'acct, 'pr) state \<Rightarrow> ('id, 'acct, 'pr) state" where
  "stopPullRequestUpdater s =
     (case s of (this, env) \<Rightarrow>
        (case currentPullRequestUpdater this of
           None \<Rightarrow> (this, env)
         | Some u \<Rightarrow> (this\<lparr>currentPullRequestUpdater := None\<rparr>, stop u env)))"

definition startPullRequestUpdater ::
  "'id Repository \<Rightarrow> 'acct \<Rightarrow> ('id, 'acct, 'pr) state \<Rightarrow> ('id, 'acct, 'pr) state" where
  "startPullRequestUpdater repository account s =
     (case (if currentPullRequestUpdater (fst s) \<noteq> None then stopPullRequestUpdater s else s) of
        (this, env) \<Rightarrow>
          (case newPullRequestUpdater (gitHubRepository repository) account env of
             (u, env') \<Rightarrow> (this\<lparr>currentPullRequestUpdater := Some u\<rparr>, start u env')))"

text \<open>The callbacks that record their invocations and return.\<close>

definition recordPullRequestsChanged ::
  "'id Repository \<Rightarrow> 'pr list \<Rightarrow> ('id, 'acct, 'pr) environment \<Rightarrow>
   ('id, 'acct, 'pr) environment completion" where
  "recordPullRequestsChanged repo pullRequests env =
     Inr (env\<lparr>notifications := notifications env @ [PullRequestsChangedFor repo pullRequests]\<rparr>)"

definition recordIsLoading ::
  "'id Repository \<Rightarrow> bool \<Rightarrow> ('id, 'acct, 'pr) environment \<Rightarrow>
   ('id, 'acct, 'pr) environment completion" where
  "recordIsLoading repo isLoading env =
     Inr (env\<lparr>notifications := notifications env @ [IsLoadingFor repo isLoading]\<rparr>)"

text \<open>A callback that records its invocation and then throws.\<close>

definition recordThenThrow ::
  "'id Repository \<Rightarrow> 'pr list \<Rightarrow> ('id, 'acct, 'pr) environment \<Rightarrow>
   ('id, 'acct, 'pr) environment completion" where
  "recordThenThrow repo pullRequests env =
     Inl (Thrown ''callback failed'',
          env\<lparr>notifications := notifications env @ [PullRequestsChangedFor repo pullRequests]\<rparr>)"

fun notifiedRepository :: "('id, 'pr) notification \<Rightarrow> 'id Repository" where
  "notifiedRepository (PullRequestsChangedFor repo _) = repo"
| "notifiedRepository (IsLoadingFor repo _) = repo"

subsection \<open>Runs of the coordinator\<close>

text \<open>
  Everything that can happen to a coordinator whose two subscriptions carry the
  recording callbacks: the registry updates, the store emits one of its two events, or
  the application starts or stops the updater. An exception ends the run, with the
  state it left.
\<close>

datatype ('id, 'acct, 'pr) event =
  DidUpdate "'id Repository list"
| PullRequestsChanged "'id GitHubRepository" "'pr list"
| IsLoadingPullRequests "'id GitHubRepository" bool
| StartPullRequestUpdater "'id Repository" 'acct
| StopPullRequestUpdater

fun step :: "('id, 'acct, 'pr) event \<Rightarrow> ('id, 'acct, 'pr) state \<Rightarrow> ('id, 'acct, 'pr) state completion" where
  "step (DidUpdate allRepositories) (this, env) = Inr (onDidUpdate allRepositories this, env)"
| "step (PullRequestsChanged ghRepo pullRequests) (this, env) =
     (case onPullRequestsChanged recordPullRequestsChanged this ghRepo pullRequests env of
        Inl (e, env') \<Rightarrow> Inl (e, (this, env'))
      | Inr env' \<Rightarrow> Inr (this, env'))"
| "step (IsLoadingPullRequests ghRepo isLoading) (this, env) =
     (case onIsLoadingPullRequests recordIsLoading this ghRepo isLoading env of
        Inl (e, env') \<Rightarrow> Inl (e, (this, env'))
      | Inr env' \<Rightarrow> Inr (this, env'))"
| "step (StartPullRequestUpdater repository account) (this, env) =
     Inr (startPullRequestUpdater repository account (this, env))"
| "step StopPullRequestUpdater (this, env) = Inr (stopPullRequestUpdater (this, env))"

fun run :: "('id, 'acct, 'pr) event list \<Rightarrow> ('id, 'acct, 'pr) state \<Rightarrow> ('id, 'acct, 'pr) state completion" where
  "run [] s = Inr s"
| "run (ev # evs) s = (case step ev s of Inl e \<Rightarrow> Inl e | Inr s' \<Rightarrow> run evs s')"

definition initial :: "('id, 'acct, 'pr) state" where
  "initial = (newPullRequestCoordinator, \<lparr>constructed = 0, updaterCalls = [], notifications = []\<rparr>)"

fun isDidUpdate :: "('id, 'acct, 'pr) event \<Rightarrow> bool" where
  "isDidUpdate (DidUpdate _) = True"
| "isDidUpdate _ = False"

subsection \<open>Reading the updater log\<close>

text \<open>
  Modelled from the spec: \<open>PullRequestUpdater\<close> is defined in
  \<open>helpers/pull-request-updater\<close>, which is not among the verified files. The spec
  describes it as a background task that polls once started and issues no refresh
  after \<open>stop\<close> returns, so an updater is live from its \<open>start()\<close> to its next \<open>stop()\<close>.
\<close>

fun applyCall :: "('id, 'acct) updaterCall \<Rightarrow> nat set \<Rightarrow> nat set" where
  "applyCall (New u _ _) live = live"
| "applyCall (Start u) live = insert u live"
| "applyCall (Stop u) live = live - {u}"

definition liveUpdaters :: "('id, 'acct) updaterCall list \<Rightarrow> nat set" where
  "liveUpdaters calls = fold applyCall calls {}"

definition atMostOneLive :: "('id, 'acct) updaterCall list \<Rightarrow> bool" where
  "atMostOneLive calls = list_all (\<lambda>p. card (liveUpdaters p) \<le> 1) (prefixes calls)"

fun target :: "('id, 'acct) updaterCall \<Rightarrow> nat" where
  "target (New u _ _) = u"
| "target (Start u) = u"
| "target (Stop u) = u"

fun callsAfter :: "('id, 'acct) updaterCall \<Rightarrow> ('id, 'acct) updaterCall list \<Rightarrow> ('id, 'acct) updaterCall list" where
  "callsAfter x [] = []"
| "callsAfter x (c # cs) = (if c = x then cs else callsAfter x cs)"

definition noInteractionAfterStop :: "nat \<Rightarrow> ('id, 'acct) updaterCall list \<Rightarrow> bool" where
  "noInteractionAfterStop u calls =
     (Stop u \<in> set calls \<and> list_all (\<lambda>c. target c \<noteq> u) (callsAfter (Stop u) calls))"

text \<open>
  The repositories for which a handler called back, in the order of the calls: the
  notifications it added to the log, or the exception it threw.
\<close>

definition firedFor ::
  "('id, 'acct, 'pr) environment \<Rightarrow> ('id, 'acct, 'pr) environment completion \<Rightarrow>
   (error \<times> ('id, 'acct, 'pr) environment) + 'id Repository list" where
  "firedFor env result =
     (case result of
        Inl e \<Rightarrow> Inl e
      | Inr env' \<Rightarrow>
          Inr (map notifiedRepository (drop (length (notifications env)) (notifications env'))))"

subsection \<open>Invariants of a run\<close>

text \<open>
  What holds of every state a run reaches from \<open>initial\<close>: the snapshot and the
  notified repositories have a remote, every updater in the log has been constructed,
  and the updater the coordinator holds is the only live one.
\<close>

definition consistent :: "('id, 'acct, 'pr) state \<Rightarrow> bool" where
  "consistent s =
     (case s of (this, env) \<Rightarrow>
        hasRemote (repositories this)
        \<and> list_all (\<lambda>n. gitHubRepository (notifiedRepository n) \<noteq> None) (notifications env)
        \<and> list_all (\<lambda>c. target c < constructed env) (updaterCalls env)
        \<and> list_all (\<lambda>u. u < constructed env) (case currentPullRequestUpdater this of None \<Rightarrow> [] | Some u \<Rightarrow> [u])
        \<and> liveUpdaters (updaterCalls env) = set_option (currentPullRequestUpdater this)
        \<and> atMostOneLive (updaterCalls env))"

text \<open>
  What holds from the moment updater \<open>u1\<close> has been replaced by updater \<open>u2\<close>:
  the coordinator no longer holds \<open>u1\<close>, \<open>u1\<close> was stopped once and left alone since,
  and \<open>u2\<close> was started once.
\<close>

definition retired :: "nat \<Rightarrow> nat \<Rightarrow> ('id, 'acct, 'pr) state \<Rightarrow> bool" where
  "retired u1 u2 s =
     (case s of (this, env) \<Rightarrow>
        u1 < constructed env \<and> u2 < constructed env
        \<and> currentPullRequestUpdater this \<noteq> Some u1
        \<and> list_all (\<lambda>u. u < constructed env) (case currentPullRequestUpdater this of None \<Rightarrow> [] | Some u \<Rightarrow> [u])
        \<and> count_list (updaterCalls env) (Stop u1) = 1
        \<and> count_list (updaterCalls env) (Start u2) = 1
        \<and> noInteractionAfterStop u1 (updaterCalls env))"

subsection \<open>Example inputs\<close>

text \<open>
  An upstream repository with \<open>dbID\<close> 42, its local clone, a local clone of a fork
  of it, a clone of an unrelated repository, a repository with no remote, and a store
  whose refresh rejects for every repository but the upstream one.
\<close>

definition upstream :: "int GitHubRepository" where
  "upstream = GitHubRepository 42 ''https://api.github.com'' None"

definition unrelated :: "int GitHubRepository" where
  "unrelated = GitHubRepository 9 ''https://api.github.com'' None"

definition cloneU :: "int Repository" where
  "cloneU = \<lparr>path = ''/work/desktop'', gitHubRepository = Some upstream\<rparr>"

definition cloneF :: "int Repository" where
  "cloneF = \<lparr>path = ''/work/desktop-fork'',
     gitHubRepository = Some (GitHubRepository 7 ''https://api.github.com'' (Some upstream))\<rparr>"

definition cloneOther :: "int Repository" where
  "cloneOther = \<lparr>path = ''/work/other'', gitHubRepository = Some unrelated\<rparr>"

definition localOnly :: "int Repository" where
  "localOnly = \<lparr>path = ''/work/notes'', gitHubRepository = None\<rparr>"

definition holding :: "int Repository list \<Rightarrow> int PullRequestCoordinator" where
  "holding snapshot = \<lparr>currentPullRequestUpdater = None, repositories = snapshot\<rparr>"

definition quiet :: "(int, string, nat) environment" where
  "quiet = \<lparr>constructed = 0, updaterCalls = [], notifications = []\<rparr>"

definition exampleStore :: "(int, string, nat, string + string) PullRequestStore" where
  "exampleStore =
     \<lparr>store_refreshPullRequests =
        (\<lambda>ghRepo account.
           case ghRepo of
             None \<Rightarrow> Inl ''no remote''
           | Some g \<Rightarrow> if dbID g = 42 then Inr account else Inl ''not found''),
      store_getAll = (\<lambda>ghRepo. case ghRepo of None \<Rightarrow> [] | Some g \<Rightarrow> [nat (dbID g)])\<rparr>"

section \<open>Properties\<close>

lemmas fixtures = upstream_def unrelated_def cloneU_def cloneF_def cloneOther_def localOnly_def
  holding_def quiet_def

subsection \<open>Matching and fan-out\<close>

lemma filterArray_total:
  "list_all (\<lambda>x. \<exists>b. p x = Inr b) xs \<Longrightarrow>
   filterArray p xs = Inr (filter (\<lambda>x. p x = Inr True) xs)"
  by (induction xs) auto

lemma matchesDbID_spec:
  "gitHubRepository L \<noteq> None \<Longrightarrow> matchesDbID (dbID R) L = Inr (spec_isFor R L)"
  by (auto simp: matchesDbID_def spec_isFor_def split: option.splits)

lemma find_is_filter:
  "hasRemote S \<Longrightarrow>
   findRepositoriesForGitHubRepository R S = Inr (filter (spec_isFor R) S)"
proof -
  assume h: "hasRemote S"
  then have "list_all (\<lambda>L. \<exists>b. matchesDbID (dbID R) L = Inr b) S"
    by (auto simp: hasRemote_def list_all_iff matchesDbID_spec)
  then have "findRepositoriesForGitHubRepository R S
      = Inr (filter (\<lambda>L. matchesDbID (dbID R) L = Inr True) S)"
    unfolding findRepositoriesForGitHubRepository_def by (rule filterArray_total)
  moreover have "filter (\<lambda>L. matchesDbID (dbID R) L = Inr True) S = filter (spec_isFor R) S"
    using h by (intro filter_cong) (auto simp: hasRemote_def list_all_iff matchesDbID_spec)
  ultimately show ?thesis by simp
qed

lemma forOf_recordPullRequestsChanged:
  "forOf (\<lambda>repo. recordPullRequestsChanged repo prs) Ls env
     = Inr (env\<lparr>notifications := notifications env @ map (\<lambda>L. PullRequestsChangedFor L prs) Ls\<rparr>)"
  by (induction Ls arbitrary: env) (simp_all add: recordPullRequestsChanged_def)

lemma forOf_recordIsLoading:
  "forOf (\<lambda>repo. recordIsLoading repo b) Ls env
     = Inr (env\<lparr>notifications := notifications env @ map (\<lambda>L. IsLoadingFor L b) Ls\<rparr>)"
  by (induction Ls arbitrary: env) (simp_all add: recordIsLoading_def)

lemma onPullRequestsChanged_hasRemote:
  "hasRemote (repositories this) \<Longrightarrow>
   onPullRequestsChanged fn this R prs w
     = forOf (\<lambda>L. fn L prs) (filter (spec_isFor R) (repositories this)) w"
  by (simp add: onPullRequestsChanged_def find_is_filter)

lemma onIsLoadingPullRequests_hasRemote:
  "hasRemote (repositories this) \<Longrightarrow>
   onIsLoadingPullRequests fn this R b w
     = forOf (\<lambda>L. fn L b) (filter (spec_isFor R) (repositories this)) w"
  by (simp add: onIsLoadingPullRequests_def find_is_filter)

text \<open>
  C1. For every remote repository \<open>R\<close> and every snapshot \<open>S\<close> the coordinator can hold
  (each entry has a remote), the repositories matched for a store event about \<open>R\<close> are
  exactly the entries of \<open>S\<close> whose remote has \<open>R\<close>'s \<open>dbID\<close> or whose remote has a parent
  with \<open>R\<close>'s \<open>dbID\<close>, in the order of \<open>S\<close>.
\<close>

theorem find_matches_association:
  assumes "hasRemote S"
  shows "\<exists>ms. findRepositoriesForGitHubRepository R S = Inr ms
           \<and> set ms = spec_matchSet R S
           \<and> ms = filter (spec_isFor R) S"
  using find_is_filter [OF assms] by (simp add: spec_matchSet_def)

theorem find_matches_association_witness:
  "hasRemote [cloneF, cloneOther, cloneU]
   \<and> findRepositoriesForGitHubRepository upstream [cloneF, cloneOther, cloneU]
       = Inr [cloneF, cloneU]"
proof -
  have h: "hasRemote [cloneF, cloneOther, cloneU]"
    by (simp add: hasRemote_def fixtures)
  have "filter (spec_isFor upstream) [cloneF, cloneOther, cloneU] = [cloneF, cloneU]"
    by (simp add: spec_isFor_def fixtures)
  with h find_matches_association [OF h, of upstream] show ?thesis
    by auto
qed

lemma forOf_returning:
  "forOf (\<lambda>x w. Inr (g x w)) xs w = Inr (fold g xs w)"
  by (induction xs arbitrary: w) simp_all

lemma forOf_throws:
  "forOf body before w = Inr w' \<Longrightarrow> body x w' = Inl thrown \<Longrightarrow>
   forOf body (before @ x # rest) w = Inl thrown"
  by (induction before arbitrary: w) (auto split: sum.splits)

text \<open>
  C2, as the code has it. On a pull-requests-changed event about \<open>R\<close>, the handler of
  \<open>onPullRequestsChanged\<close> runs the callback over the matching entries of the snapshot,
  in snapshot order, every time with the event's pull request list. A callback that
  returns normally is so called once for each matching entry; with the snapshot made of
  an upstream clone \<open>U\<close> and a fork \<open>F\<close> of the event's repository, that is two calls: one
  for \<open>U\<close>, one for \<open>F\<close>. A call that throws is the last one: the exception leaves the
  handler and the matching entries behind it are not called.
\<close>

theorem onPullRequestsChanged_fans_out:
  assumes "hasRemote (repositories this)"
  shows "onPullRequestsChanged (\<lambda>L prs w. Inr (g L prs w)) this R prs w
           = Inr (fold (\<lambda>L. g L prs) (filter (spec_isFor R) (repositories this)) w)
       \<and> onPullRequestsChanged recordPullRequestsChanged this R prs env
           = Inr (env\<lparr>notifications := notifications env
                   @ map (\<lambda>L. PullRequestsChangedFor L prs)
                       (filter (spec_isFor R) (repositories this))\<rparr>)
       \<and> (repositories this = [U, F]
            \<and> gitHubRepository U = Some gu \<and> dbID gu = dbID R
            \<and> gitHubRepository F = Some gf \<and> parent gf = Some p \<and> dbID p = dbID R
          \<longrightarrow> onPullRequestsChanged recordPullRequestsChanged this R prs env
                = Inr (env\<lparr>notifications := notifications env
                        @ [PullRequestsChangedFor U prs, PullRequestsChangedFor F prs]\<rparr>))
       \<and> onPullRequestsChanged fn this R prs v
           = forOf (\<lambda>L. fn L prs) (filter (spec_isFor R) (repositories this)) v
       \<and> (filter (spec_isFor R) (repositories this) = before @ L # rest
            \<and> forOf (\<lambda>L. fn L prs) before v = Inr v' \<and> fn L prs v' = Inl thrown
          \<longrightarrow> onPullRequestsChanged fn this R prs v = Inl thrown)"
proof -
  note general = onPullRequestsChanged_hasRemote [OF assms]
  have returning: "onPullRequestsChanged (\<lambda>L prs w. Inr (g L prs w)) this R prs w
           = Inr (fold (\<lambda>L. g L prs) (filter (spec_isFor R) (repositories this)) w)"
    by (simp only: general forOf_returning)
  have recorded: "onPullRequestsChanged recordPullRequestsChanged this R prs env
           = Inr (env\<lparr>notifications := notifications env
                   @ map (\<lambda>L. PullRequestsChangedFor L prs)
                       (filter (spec_isFor R) (repositories this))\<rparr>)"
    by (simp only: general forOf_recordPullRequestsChanged)
  have pair: "filter (spec_isFor R) (repositories this) = [U, F]"
    if "repositories this = [U, F]" "gitHubRepository U = Some gu" "dbID gu = dbID R"
       "gitHubRepository F = Some gf" "parent gf = Some p" "dbID p = dbID R"
    using that by (simp add: spec_isFor_def)
  have throws: "onPullRequestsChanged fn this R prs v = Inl thrown"
    if "filter (spec_isFor R) (repositories this) = before @ L # rest"
       "forOf (\<lambda>L. fn L prs) before v = Inr v'" "fn L prs v' = Inl thrown"
    using that forOf_throws [of "\<lambda>L. fn L prs" before v v' L thrown rest]
    by (simp only: general)
  from recorded pair have scenario: "repositories this = [U, F]
            \<and> gitHubRepository U = Some gu \<and> dbID gu = dbID R
            \<and> gitHubRepository F = Some gf \<and> parent gf = Some p \<and> dbID p = dbID R
          \<longrightarrow> onPullRequestsChanged recordPullRequestsChanged this R prs env
                = Inr (env\<lparr>notifications := notifications env
                        @ [PullRequestsChangedFor U prs, PullRequestsChangedFor F prs]\<rparr>)"
    by simp
  from returning recorded scenario general [of fn R prs v] throws show ?thesis
    by blast
qed

theorem onPullRequestsChanged_fans_out_witness:
  "hasRemote (repositories (holding [cloneU, cloneF]))
   \<and> onPullRequestsChanged recordPullRequestsChanged (holding [cloneU, cloneF]) upstream
         [1, 2] quiet
       = Inr (quiet\<lparr>notifications :=
               [PullRequestsChangedFor cloneU [1, 2], PullRequestsChangedFor cloneF [1, 2]]\<rparr>)
   \<and> filter (spec_isFor upstream) (repositories (holding [cloneU, cloneF])) = [] @ cloneU # [cloneF]
   \<and> recordThenThrow cloneU [1, 2] quiet
       = Inl (Thrown ''callback failed'',
              quiet\<lparr>notifications := [PullRequestsChangedFor cloneU [1, 2]]\<rparr>)
   \<and> onPullRequestsChanged recordThenThrow (holding [cloneU, cloneF]) upstream [1, 2] quiet
       = Inl (Thrown ''callback failed'',
              quiet\<lparr>notifications := [PullRequestsChangedFor cloneU [1, 2]]\<rparr>)"
proof -
  let ?thrown = "(Thrown ''callback failed'',
              quiet\<lparr>notifications := [PullRequestsChangedFor cloneU [1, 2]]\<rparr>)"
  have h: "hasRemote (repositories (holding [cloneU, cloneF]))"
    by (simp add: hasRemote_def fixtures)
  have scenario: "repositories (holding [cloneU, cloneF]) = [cloneU, cloneF]
      \<and> gitHubRepository cloneU = Some upstream \<and> dbID upstream = dbID upstream
      \<and> gitHubRepository cloneF = Some (GitHubRepository 7 ''https://api.github.com'' (Some upstream))
      \<and> parent (GitHubRepository 7 ''https://api.github.com'' (Some upstream)) = Some upstream
      \<and> dbID upstream = dbID upstream"
    by (simp add: holding_def cloneU_def cloneF_def)
  have matches: "filter (spec_isFor upstream) (repositories (holding [cloneU, cloneF]))
      = [] @ cloneU # [cloneF]"
    by (simp add: spec_isFor_def fixtures)
  have first: "forOf (\<lambda>L. recordThenThrow L [1, 2]) [] quiet = Inr quiet"
    by simp
  have throw: "recordThenThrow cloneU [1, 2] quiet = Inl ?thrown"
    by (simp add: recordThenThrow_def quiet_def)
  note inst = onPullRequestsChanged_fans_out [OF h, where R = upstream and env = quiet
        and U = cloneU and g = "\<lambda>L prs w. w" and w = quiet
        and F = cloneF and gu = upstream and p = upstream and prs = "[1, 2]"
        and gf = "GitHubRepository 7 ''https://api.github.com'' (Some upstream)"
        and fn = recordThenThrow and v = quiet and before = "[]" and L = cloneU
        and rest = "[cloneF]" and v' = quiet and thrown = ?thrown]
  have "onPullRequestsChanged recordPullRequestsChanged (holding [cloneU, cloneF]) upstream
         [1, 2] quiet
       = Inr (quiet\<lparr>notifications := notifications quiet @
               [PullRequestsChangedFor cloneU [1, 2], PullRequestsChangedFor cloneF [1, 2]]\<rparr>)"
    using scenario inst by blast
  then have recorded: "onPullRequestsChanged recordPullRequestsChanged (holding [cloneU, cloneF])
         upstream [1, 2] quiet
       = Inr (quiet\<lparr>notifications :=
               [PullRequestsChangedFor cloneU [1, 2], PullRequestsChangedFor cloneF [1, 2]]\<rparr>)"
    by (simp add: quiet_def)
  have "onPullRequestsChanged recordThenThrow (holding [cloneU, cloneF]) upstream [1, 2] quiet
       = Inl ?thrown"
    using matches first throw inst by blast
  with h recorded matches throw show ?thesis
    by blast
qed

text \<open>
  C2, as the claim has it, fails for a callback that throws: with the snapshot made of
  the upstream clone and the fork, both matching the event's repository, the callback
  is called for the upstream clone, throws, and is never called for the fork.
\<close>

theorem onPullRequestsChanged_fans_out_counterexample:
  "hasRemote (repositories (holding [cloneU, cloneF]))
   \<and> spec_matchSet upstream (repositories (holding [cloneU, cloneF])) = {cloneU, cloneF}
   \<and> cloneU \<noteq> cloneF
   \<and> onPullRequestsChanged recordThenThrow (holding [cloneU, cloneF]) upstream [1, 2] quiet
       = Inl (Thrown ''callback failed'',
              quiet\<lparr>notifications := [PullRequestsChangedFor cloneU [1, 2]]\<rparr>)
   \<and> onPullRequestsChanged recordThenThrow (holding [cloneU, cloneF]) upstream [1, 2] quiet
       \<noteq> Inr (quiet\<lparr>notifications :=
               [PullRequestsChangedFor cloneU [1, 2], PullRequestsChangedFor cloneF [1, 2]]\<rparr>)"
proof -
  have "hasRemote (repositories (holding [cloneU, cloneF]))"
    by (simp add: hasRemote_def fixtures)
  moreover have "spec_matchSet upstream (repositories (holding [cloneU, cloneF])) = {cloneU, cloneF}"
    by (auto simp: spec_matchSet_def spec_isFor_def fixtures)
  moreover have "cloneU \<noteq> cloneF"
    by (simp add: fixtures)
  moreover have thrown:
    "onPullRequestsChanged recordThenThrow (holding [cloneU, cloneF]) upstream [1, 2] quiet
       = Inl (Thrown ''callback failed'',
              quiet\<lparr>notifications := [PullRequestsChangedFor cloneU [1, 2]]\<rparr>)"
    by (simp add: onPullRequestsChanged_def findRepositoriesForGitHubRepository_def
        matchesDbID_def recordThenThrow_def fixtures)
  moreover have
    "onPullRequestsChanged recordThenThrow (holding [cloneU, cloneF]) upstream [1, 2] quiet
       \<noteq> Inr (quiet\<lparr>notifications :=
               [PullRequestsChangedFor cloneU [1, 2], PullRequestsChangedFor cloneF [1, 2]]\<rparr>)"
    unfolding thrown by simp
  ultimately show ?thesis by blast
qed

text \<open>
  C5. When no entry of the snapshot matches the event's repository, neither handler
  calls its callback and neither throws: what the callback acts on is returned as it
  was, and a step of the coordinator leaves the whole state unchanged.
\<close>

theorem no_match_no_callback:
  assumes "hasRemote (repositories this)" and "spec_matchSet R (repositories this) = {}"
  shows "onPullRequestsChanged fn this R prs w = Inr w
       \<and> onIsLoadingPullRequests fn' this R b w' = Inr w'
       \<and> step (PullRequestsChanged R prs) (this, env) = Inr (this, env)
       \<and> step (IsLoadingPullRequests R b) (this, env) = Inr (this, env)"
proof -
  from assms(2) have "filter (spec_isFor R) (repositories this) = []"
    by (auto simp: spec_matchSet_def filter_empty_conv)
  with assms(1) show ?thesis
    by (simp add: onPullRequestsChanged_hasRemote onIsLoadingPullRequests_hasRemote)
qed

theorem no_match_no_callback_witness:
  "hasRemote (repositories (holding [cloneU, cloneF]))
   \<and> spec_matchSet unrelated (repositories (holding [cloneU, cloneF])) = {}
   \<and> onPullRequestsChanged recordPullRequestsChanged (holding [cloneU, cloneF]) unrelated [1, 2] quiet
       = Inr quiet
   \<and> onIsLoadingPullRequests recordIsLoading (holding [cloneU, cloneF]) unrelated True quiet
       = Inr quiet"
proof -
  have h: "hasRemote (repositories (holding [cloneU, cloneF]))"
    by (simp add: hasRemote_def fixtures)
  have m: "spec_matchSet unrelated (repositories (holding [cloneU, cloneF])) = {}"
    by (auto simp: spec_matchSet_def spec_isFor_def fixtures)
  from h m
    no_match_no_callback [OF h m, where fn = recordPullRequestsChanged and prs = "[1, 2]"
      and w = quiet and fn' = recordIsLoading and b = True and w' = quiet and env = quiet]
  show ?thesis by simp
qed

text \<open>
  C8. \<open>onIsLoadingPullRequests\<close> fans out as \<open>onPullRequestsChanged\<close> does: on the
  same snapshot and remote repository it is the pull-requests handler with the
  callback that passes the loading flag on, and the recording callbacks fire for the
  same repositories in the same order (or both handlers throw).
\<close>

theorem onIsLoadingPullRequests_same_fanout:
  "onIsLoadingPullRequests fn this R b w
     = onPullRequestsChanged (\<lambda>L (_ :: 'pr list). fn L b) this R prs w
   \<and> firedFor env (onIsLoadingPullRequests recordIsLoading this R b env)
     = firedFor env (onPullRequestsChanged recordPullRequestsChanged this R prs env)"
  by (simp add: onIsLoadingPullRequests_def onPullRequestsChanged_def firedFor_def
      forOf_recordIsLoading forOf_recordPullRequestsChanged comp_def split: sum.splits)

theorem onIsLoadingPullRequests_same_fanout_witness:
  "firedFor quiet
     (onIsLoadingPullRequests recordIsLoading (holding [cloneU, cloneOther, cloneF]) upstream True quiet)
     = Inr [cloneU, cloneF]
   \<and> firedFor quiet
     (onPullRequestsChanged recordPullRequestsChanged (holding [cloneU, cloneOther, cloneF]) upstream
        [1, 2] quiet)
     = Inr [cloneU, cloneF]"
proof -
  have "hasRemote (repositories (holding [cloneU, cloneOther, cloneF]))"
    by (simp add: hasRemote_def fixtures)
  moreover have "filter (spec_isFor upstream) (repositories (holding [cloneU, cloneOther, cloneF]))
      = [cloneU, cloneF]"
    by (simp add: spec_isFor_def fixtures)
  ultimately have "firedFor quiet
     (onPullRequestsChanged recordPullRequestsChanged (holding [cloneU, cloneOther, cloneF]) upstream
        [1, 2] quiet) = Inr [cloneU, cloneF]"
    by (simp add: onPullRequestsChanged_hasRemote firedFor_def recordPullRequestsChanged_def
        quiet_def)
  with onIsLoadingPullRequests_same_fanout
    [where fn = recordIsLoading and this = "holding [cloneU, cloneOther, cloneF]" and R = upstream
      and b = True and w = quiet and prs = "[1, 2]" and env = quiet, THEN conjunct2]
  show ?thesis by simp
qed

text \<open>
  C7. \<open>refreshPullRequests\<close> and \<open>getAllPullRequests\<close> hand the store the
  repository's \<open>gitHubRepository\<close> and nothing else of the local repository: two local
  repositories with the same remote give the same store call. \<open>refreshPullRequests\<close>
  returns what the store returns, a rejection included.
\<close>

theorem delegates_to_remote:
  "refreshPullRequests pullRequestStore repository account
     = store_refreshPullRequests pullRequestStore (gitHubRepository repository) account
   \<and> getAllPullRequests pullRequestStore repository
     = store_getAll pullRequestStore (gitHubRepository repository)
   \<and> (gitHubRepository other = gitHubRepository repository \<longrightarrow>
        refreshPullRequests pullRequestStore other account
          = refreshPullRequests pullRequestStore repository account
        \<and> getAllPullRequests pullRequestStore other
          = getAllPullRequests pullRequestStore repository)
   \<and> (store_refreshPullRequests rejecting (gitHubRepository repository) account = Inl e \<longrightarrow>
        refreshPullRequests rejecting repository account = Inl e)"
  by (simp add: refreshPullRequests_def getAllPullRequests_def)

theorem delegates_to_remote_witness:
  "gitHubRepository (cloneU\<lparr>path := ''/elsewhere''\<rparr>) = gitHubRepository cloneU
   \<and> refreshPullRequests exampleStore (cloneU\<lparr>path := ''/elsewhere''\<rparr>) ''alice''
       = refreshPullRequests exampleStore cloneU ''alice''
   \<and> refreshPullRequests exampleStore cloneU ''alice'' = Inr ''alice''
   \<and> getAllPullRequests exampleStore cloneU = [42]
   \<and> store_refreshPullRequests exampleStore (gitHubRepository cloneOther) ''alice'' = Inl ''not found''
   \<and> refreshPullRequests exampleStore cloneOther ''alice'' = Inl ''not found''"
proof -
  have h: "gitHubRepository (cloneU\<lparr>path := ''/elsewhere''\<rparr>) = gitHubRepository cloneU"
    by simp
  have r: "store_refreshPullRequests exampleStore (gitHubRepository cloneOther) ''alice'' = Inl ''not found''"
    by (simp add: exampleStore_def fixtures)
  have "store_refreshPullRequests exampleStore (gitHubRepository cloneU) ''alice'' = Inr ''alice''"
    and "store_getAll exampleStore (gitHubRepository cloneU) = [42]"
    by (simp_all add: exampleStore_def fixtures)
  with h r
    delegates_to_remote [where pullRequestStore = exampleStore and repository = cloneU
      and account = "''alice''" and other = "cloneU\<lparr>path := ''/elsewhere''\<rparr>"
      and rejecting = exampleStore and e = "''not found''"]
    delegates_to_remote [where pullRequestStore = exampleStore and repository = cloneOther
      and account = "''alice''" and other = cloneOther
      and rejecting = exampleStore and e = "''not found''"]
  show ?thesis by simp
qed

subsection \<open>Stopping the updater\<close>

lemma stopPullRequestUpdater_eq:
  "stopPullRequestUpdater (this, env) =
     (this\<lparr>currentPullRequestUpdater := None\<rparr>,
      env\<lparr>updaterCalls := updaterCalls env
            @ (case currentPullRequestUpdater this of None \<Rightarrow> [] | Some u \<Rightarrow> [Stop u])\<rparr>)"
  by (simp add: stopPullRequestUpdater_def stop_def split: option.splits)

lemma startPullRequestUpdater_eq:
  "startPullRequestUpdater r a (this, env) =
     (this\<lparr>currentPullRequestUpdater := Some (constructed env)\<rparr>,
      env\<lparr>constructed := Suc (constructed env),
          updaterCalls := updaterCalls env
            @ (case currentPullRequestUpdater this of None \<Rightarrow> [] | Some u \<Rightarrow> [Stop u])
            @ [New (constructed env) (gitHubRepository r) a, Start (constructed env)]\<rparr>)"
  by (simp add: startPullRequestUpdater_def stopPullRequestUpdater_def stop_def start_def
      newPullRequestUpdater_def split: option.splits)

lemma stopPullRequestUpdater_idem:
  "stopPullRequestUpdater (stopPullRequestUpdater s) = stopPullRequestUpdater s"
  by (cases s) (simp add: stopPullRequestUpdater_def split: option.splits)

lemma stopPullRequestUpdater_funpow:
  "(stopPullRequestUpdater ^^ Suc n) s = stopPullRequestUpdater s"
  by (induction n) (simp_all add: stopPullRequestUpdater_idem)

lemma run_replicate_stop:
  "run (replicate n StopPullRequestUpdater) s = Inr ((stopPullRequestUpdater ^^ n) s)"
proof (induction n arbitrary: s)
  case 0
  show ?case by simp
next
  case (Suc n)
  obtain this env where s: "s = (this, env)" by (cases s)
  have "run (replicate (Suc n) StopPullRequestUpdater) s
      = run (replicate n StopPullRequestUpdater) (stopPullRequestUpdater s)"
    by (simp add: s)
  also have "\<dots> = Inr ((stopPullRequestUpdater ^^ n) (stopPullRequestUpdater s))"
    by (rule Suc.IH)
  finally show ?case by (simp add: funpow_swap1)
qed

lemmas evaluation = onDidUpdate_def isRepositoryWithGitHubRepository_def
  onPullRequestsChanged_def onIsLoadingPullRequests_def findRepositoriesForGitHubRepository_def
  matchesDbID_def recordPullRequestsChanged_def recordIsLoading_def
  startPullRequestUpdater_eq stopPullRequestUpdater_eq initial_def newPullRequestCoordinator_def

text \<open>
  C6. With no updater active, \<open>stopPullRequestUpdater\<close> changes nothing: the
  coordinator, the updater log and the notification log are as before, and the step
  does not throw. Calling it any number of times in a row, from any state, is calling
  it once.
\<close>

theorem stopPullRequestUpdater_noop:
  "(currentPullRequestUpdater this = None \<longrightarrow>
      stopPullRequestUpdater (this, env) = (this, env)
      \<and> step StopPullRequestUpdater (this, env) = Inr (this, env))
   \<and> (stopPullRequestUpdater ^^ Suc n) s = stopPullRequestUpdater s
   \<and> run (replicate (Suc n) StopPullRequestUpdater) s = Inr (stopPullRequestUpdater s)"
  using stopPullRequestUpdater_funpow [of n s] run_replicate_stop [of "Suc n" s]
  by (simp add: stopPullRequestUpdater_def)

theorem stopPullRequestUpdater_noop_witness:
  "currentPullRequestUpdater (holding [cloneU]) = None
   \<and> stopPullRequestUpdater (holding [cloneU], quiet) = (holding [cloneU], quiet)
   \<and> step StopPullRequestUpdater (holding [cloneU], quiet) = Inr (holding [cloneU], quiet)
   \<and> run [StopPullRequestUpdater, StopPullRequestUpdater, StopPullRequestUpdater]
       (startPullRequestUpdater cloneU ''alice'' (holding [cloneU], quiet))
       = Inr (holding [cloneU],
           \<lparr>constructed = 1,
            updaterCalls = [New 0 (Some upstream) ''alice'', Start 0, Stop 0],
            notifications = []\<rparr>)"
proof -
  have h: "currentPullRequestUpdater (holding [cloneU]) = None"
    by (simp add: holding_def)
  have "stopPullRequestUpdater (startPullRequestUpdater cloneU ''alice'' (holding [cloneU], quiet))
      = (holding [cloneU],
           \<lparr>constructed = 1,
            updaterCalls = [New 0 (Some upstream) ''alice'', Start 0, Stop 0],
            notifications = []\<rparr>)"
    by (simp add: startPullRequestUpdater_eq stopPullRequestUpdater_eq fixtures)
  with h stopPullRequestUpdater_noop [where this = "holding [cloneU]" and env = quiet and n = 2
      and s = "startPullRequestUpdater cloneU ''alice'' (holding [cloneU], quiet)"]
  show ?thesis
    by (simp add: numeral_3_eq_3)
qed

subsection \<open>Every run keeps the invariants\<close>

lemma liveUpdaters_Nil: "liveUpdaters [] = {}"
  by (simp add: liveUpdaters_def)

lemma liveUpdaters_snoc: "liveUpdaters (cs @ [c]) = applyCall c (liveUpdaters cs)"
  by (simp add: liveUpdaters_def)

lemma atMostOneLive_Nil: "atMostOneLive []"
  by (simp add: atMostOneLive_def liveUpdaters_Nil)

lemma atMostOneLive_snoc:
  "atMostOneLive (cs @ [c]) \<longleftrightarrow> atMostOneLive cs \<and> card (liveUpdaters (cs @ [c])) \<le> 1"
  by (simp add: atMostOneLive_def)

lemma hasRemote_filter_guard: "hasRemote (filter isRepositoryWithGitHubRepository all)"
  by (simp add: hasRemote_def list_all_iff isRepositoryWithGitHubRepository_def)

lemma initial_consistent: "consistent initial"
  by (simp add: consistent_def initial_def newPullRequestCoordinator_def hasRemote_def
      liveUpdaters_Nil atMostOneLive_Nil)

lemma stop_consistent:
  assumes "consistent (this, env)"
  shows "consistent (stopPullRequestUpdater (this, env))"
proof (cases "currentPullRequestUpdater this")
  case None
  with assms show ?thesis by (simp add: stopPullRequestUpdater_def)
next
  case (Some u)
  with assms show ?thesis
    by (simp add: stopPullRequestUpdater_eq consistent_def liveUpdaters_snoc atMostOneLive_snoc)
qed

lemma start_consistent:
  assumes "consistent (this, env)"
  shows "consistent (startPullRequestUpdater r a (this, env))"
proof -
  let ?n = "constructed env"
  let ?mid = "updaterCalls env
     @ (case currentPullRequestUpdater this of None \<Rightarrow> [] | Some u \<Rightarrow> [Stop u])"
  have mid_live: "liveUpdaters ?mid = {}" and mid_one: "atMostOneLive ?mid"
    and mid_lt: "list_all (\<lambda>c. target c < ?n) ?mid"
    using assms
    by (auto simp: consistent_def liveUpdaters_snoc atMostOneLive_snoc split: option.splits)
  have calls: "updaterCalls (snd (startPullRequestUpdater r a (this, env)))
      = (?mid @ [New ?n (gitHubRepository r) a]) @ [Start ?n]"
    by (simp add: startPullRequestUpdater_eq)
  have "liveUpdaters ((?mid @ [New ?n (gitHubRepository r) a]) @ [Start ?n]) = {?n}"
    by (simp only: liveUpdaters_snoc mid_live) simp
  moreover have "atMostOneLive ((?mid @ [New ?n (gitHubRepository r) a]) @ [Start ?n])"
    by (simp only: atMostOneLive_snoc liveUpdaters_snoc mid_live mid_one) simp
  moreover have "list_all (\<lambda>c. target c < Suc ?n) ((?mid @ [New ?n (gitHubRepository r) a]) @ [Start ?n])"
    using mid_lt by (auto simp: list_all_iff less_Suc_eq)
  ultimately show ?thesis
    using assms unfolding consistent_def
    by (simp add: startPullRequestUpdater_eq)
qed

lemma notifications_have_remote:
  assumes "hasRemote S"
  shows "list_all (\<lambda>n. gitHubRepository (notifiedRepository n) \<noteq> None)
           (map (\<lambda>L. PullRequestsChangedFor L prs) (filter P S))"
    and "list_all (\<lambda>n. gitHubRepository (notifiedRepository n) \<noteq> None)
           (map (\<lambda>L. IsLoadingFor L b) (filter P S))"
  using assms by (auto simp: hasRemote_def list_all_iff)

lemma step_consistent:
  assumes "consistent s"
  shows "\<exists>s'. step ev s = Inr s' \<and> consistent s'"
proof -
  obtain this env where s: "s = (this, env)" by (cases s)
  have remote: "hasRemote (repositories this)"
    using assms by (simp add: s consistent_def)
  show ?thesis
  proof (cases ev)
    case (DidUpdate all)
    with assms show ?thesis
      by (simp add: s consistent_def onDidUpdate_def hasRemote_filter_guard)
  next
    case (PullRequestsChanged R prs)
    with assms remote notifications_have_remote(1) [OF remote] show ?thesis
      by (simp add: s consistent_def onPullRequestsChanged_hasRemote forOf_recordPullRequestsChanged)
  next
    case (IsLoadingPullRequests R b)
    with assms remote notifications_have_remote(2) [OF remote] show ?thesis
      by (simp add: s consistent_def onIsLoadingPullRequests_hasRemote forOf_recordIsLoading)
  next
    case (StartPullRequestUpdater r a)
    with start_consistent [of this env r a] assms show ?thesis
      by (simp add: s)
  next
    case StopPullRequestUpdater
    with stop_consistent [of this env] assms show ?thesis
      by (simp add: s)
  qed
qed

lemma run_consistent:
  "consistent s \<Longrightarrow> \<exists>s'. run es s = Inr s' \<and> consistent s'"
proof (induction es arbitrary: s)
  case Nil
  then show ?case by simp
next
  case (Cons ev es)
  from step_consistent [OF Cons.prems, of ev]
  obtain s1 where s1: "step ev s = Inr s1" "consistent s1" by blast
  from Cons.IH [OF s1(2)] s1(1) show ?case by simp
qed

text \<open>
  C9. After any sequence of events from the initial state, registry updates among
  them, the run has not thrown, every entry of \<open>repositories\<close> has a GitHub repository
  and so has every repository a callback was called for; whatever the state, the
  registry handler leaves only entries with a GitHub repository in the snapshot.
\<close>

theorem snapshot_entries_have_remote:
  "\<exists>this env.
     run es initial = Inr (this, env)
   \<and> list_all isRepositoryWithGitHubRepository (repositories this)
   \<and> list_all (\<lambda>n. isRepositoryWithGitHubRepository (notifiedRepository n)) (notifications env)
   \<and> list_all isRepositoryWithGitHubRepository (repositories (onDidUpdate allRepositories this0))"
proof -
  from run_consistent [OF initial_consistent, of es]
  obtain s where s: "run es initial = Inr s" "consistent s" by blast
  obtain this env where te: "s = (this, env)" by (cases s)
  have "list_all isRepositoryWithGitHubRepository (repositories (onDidUpdate allRepositories this0))"
    by (simp add: onDidUpdate_def list_all_iff)
  moreover have "list_all isRepositoryWithGitHubRepository (repositories this)"
    and "list_all (\<lambda>n. isRepositoryWithGitHubRepository (notifiedRepository n)) (notifications env)"
    using s(2)
    by (simp_all add: te consistent_def hasRemote_def list_all_iff isRepositoryWithGitHubRepository_def)
  ultimately show ?thesis
    using s(1) by (intro exI [of _ this] exI [of _ env]) (simp add: te)
qed

theorem snapshot_entries_have_remote_witness:
  "run [DidUpdate [cloneU, localOnly, cloneF], PullRequestsChanged upstream [1]] initial
     = Inr (holding [cloneU, cloneF],
         quiet\<lparr>notifications :=
           [PullRequestsChangedFor cloneU [1], PullRequestsChangedFor cloneF [1]]\<rparr>)
   \<and> \<not> isRepositoryWithGitHubRepository localOnly
   \<and> list_all isRepositoryWithGitHubRepository [cloneU, cloneF]
   \<and> list_all isRepositoryWithGitHubRepository
       (repositories (onDidUpdate [cloneU, localOnly, cloneF] (holding [localOnly])))"
proof -
  let ?es = "[DidUpdate [cloneU, localOnly, cloneF], PullRequestsChanged upstream [1]]"
  have r: "run ?es initial
     = Inr (holding [cloneU, cloneF],
         quiet\<lparr>notifications :=
           [PullRequestsChangedFor cloneU [1], PullRequestsChangedFor cloneF [1]]\<rparr>)"
    by (simp add: evaluation fixtures)
  have l: "\<not> isRepositoryWithGitHubRepository localOnly"
    by (simp add: isRepositoryWithGitHubRepository_def localOnly_def)
  from snapshot_entries_have_remote [where es = "?es :: (int, string, nat) event list"
      and allRepositories = "[cloneU, localOnly, cloneF]" and ?this0.0 = "holding [localOnly]"]
  obtain this and env :: "(int, string, nat) environment"
    where o: "run ?es initial = Inr (this, env)" and
    props: "list_all isRepositoryWithGitHubRepository (repositories this)"
    "list_all isRepositoryWithGitHubRepository
       (repositories (onDidUpdate [cloneU, localOnly, cloneF] (holding [localOnly])))"
    by blast
  have "Inr (this, env) = (Inr (holding [cloneU, cloneF],
         quiet\<lparr>notifications :=
           [PullRequestsChangedFor cloneU [1], PullRequestsChangedFor cloneF [1]]\<rparr>)
         :: (int, string, nat) state completion)"
    using o [symmetric] r by (rule trans)
  then have "repositories this = [cloneU, cloneF]"
    by (auto simp: holding_def)
  with props have "list_all isRepositoryWithGitHubRepository [cloneU, cloneF]"
    by simp
  with r l props(2) show ?thesis by blast
qed

subsection \<open>Registry updates\<close>

lemma step_without_update:
  assumes "hasRemote (repositories this)" and "\<not> isDidUpdate ev"
  shows "\<exists>this' env' added. step ev (this, env) = Inr (this', env')
           \<and> repositories this' = repositories this
           \<and> notifications env' = notifications env @ added
           \<and> notifiedRepository ` set added \<subseteq> set (repositories this)"
proof (cases ev)
  case (DidUpdate all)
  with assms(2) show ?thesis by simp
next
  case (PullRequestsChanged R prs)
  with assms(1) show ?thesis
    by (auto simp: onPullRequestsChanged_hasRemote forOf_recordPullRequestsChanged)
next
  case (IsLoadingPullRequests R b)
  with assms(1) show ?thesis
    by (auto simp: onIsLoadingPullRequests_hasRemote forOf_recordIsLoading)
next
  case (StartPullRequestUpdater r a)
  then show ?thesis by (simp add: startPullRequestUpdater_eq)
next
  case StopPullRequestUpdater
  then show ?thesis by (simp add: stopPullRequestUpdater_eq)
qed

lemma run_without_update:
  assumes "hasRemote (repositories this)" and "list_all (\<lambda>ev. \<not> isDidUpdate ev) es"
  shows "\<exists>this' env' added. run es (this, env) = Inr (this', env')
           \<and> repositories this' = repositories this
           \<and> notifications env' = notifications env @ added
           \<and> notifiedRepository ` set added \<subseteq> set (repositories this)"
  using assms
proof (induction es arbitrary: this env)
  case Nil
  then show ?case by simp
next
  case (Cons ev es)
  from Cons.prems have ev: "\<not> isDidUpdate ev" and es: "list_all (\<lambda>ev. \<not> isDidUpdate ev) es"
    by simp_all
  from step_without_update [OF Cons.prems(1) ev, of env]
  obtain this1 env1 added1 where 1: "step ev (this, env) = Inr (this1, env1)"
    "repositories this1 = repositories this" "notifications env1 = notifications env @ added1"
    "notifiedRepository ` set added1 \<subseteq> set (repositories this)" by blast
  from Cons.prems(1) 1(2) have "hasRemote (repositories this1)" by simp
  from Cons.IH [OF this es, of env1]
  obtain this2 env2 added2 where 2: "run es (this1, env1) = Inr (this2, env2)"
    "repositories this2 = repositories this1" "notifications env2 = notifications env1 @ added2"
    "notifiedRepository ` set added2 \<subseteq> set (repositories this1)" by blast
  have "run (ev # es) (this, env) = Inr (this2, env2)"
    using 1(1) 2(1) by simp
  moreover have "notifications env2 = notifications env @ (added1 @ added2)"
    using 1(3) 2(3) by simp
  moreover have "notifiedRepository ` set (added1 @ added2) \<subseteq> set (repositories this)"
    using 1(2,4) 2(4) by auto
  ultimately show ?case
    using 1(2) 2(2) by (intro exI [of _ this2] exI [of _ env2] exI [of _ "added1 @ added2"]) simp
qed

text \<open>
  C4. A registry update replaces the snapshot by the filtered new list, whatever the
  snapshot was. A repository that is absent from the new list is called back by none
  of the events that follow, up to the next registry update: the run does not throw and
  no notification it adds is for that repository.
\<close>

theorem registry_update_replaces_snapshot:
  assumes "L \<notin> set new" and "list_all (\<lambda>ev. \<not> isDidUpdate ev) es"
  shows "\<exists>this' env'.
           run (DidUpdate new # es) (this, env) = Inr (this', env')
         \<and> repositories (onDidUpdate new this) = filter isRepositoryWithGitHubRepository new
         \<and> repositories this' = filter isRepositoryWithGitHubRepository new
         \<and> prefix (notifications env) (notifications env')
         \<and> L \<notin> notifiedRepository ` set (drop (length (notifications env)) (notifications env'))"
proof -
  have "hasRemote (repositories (onDidUpdate new this))"
    by (simp add: onDidUpdate_def hasRemote_filter_guard)
  from run_without_update [OF this assms(2), of env]
  obtain this' env' added where r: "run es (onDidUpdate new this, env) = Inr (this', env')"
    "repositories this' = repositories (onDidUpdate new this)"
    "notifications env' = notifications env @ added"
    "notifiedRepository ` set added \<subseteq> set (repositories (onDidUpdate new this))" by blast
  have "L \<notin> set (repositories (onDidUpdate new this))"
    using assms(1) by (simp add: onDidUpdate_def)
  with r(4) have "L \<notin> notifiedRepository ` set added" by blast
  with r(1,2,3) show ?thesis
    by (intro exI [of _ this'] exI [of _ env']) (simp add: onDidUpdate_def)
qed

theorem registry_update_replaces_snapshot_witness:
  "cloneOther \<notin> set [cloneU, localOnly]
   \<and> list_all (\<lambda>ev. \<not> isDidUpdate ev) [PullRequestsChanged unrelated [5]]
   \<and> run [PullRequestsChanged unrelated [5]] (holding [cloneOther], quiet)
       = Inr (holding [cloneOther],
           quiet\<lparr>notifications := [PullRequestsChangedFor cloneOther [5]]\<rparr>)
   \<and> run (DidUpdate [cloneU, localOnly] # [PullRequestsChanged unrelated [5]])
         (holding [cloneOther], quiet)
       = Inr (holding [cloneU], quiet)"
proof -
  have absent: "cloneOther \<notin> set [cloneU, localOnly]"
    by (simp add: fixtures)
  have later: "list_all (\<lambda>ev. \<not> isDidUpdate ev) [PullRequestsChanged unrelated [5]]"
    by simp
  have before: "run [PullRequestsChanged unrelated [5]] (holding [cloneOther], quiet)
       = Inr (holding [cloneOther],
           quiet\<lparr>notifications := [PullRequestsChangedFor cloneOther [5]]\<rparr>)"
    by (simp add: evaluation fixtures)
  have after: "run (DidUpdate [cloneU, localOnly] # [PullRequestsChanged unrelated [5]])
         (holding [cloneOther], quiet)
       = Inr (holding [cloneU], quiet)"
    by (simp add: evaluation fixtures)
  from absent later before after
    registry_update_replaces_snapshot [OF absent later, where this = "holding [cloneOther]"
      and env = quiet]
  show ?thesis by blast
qed

subsection \<open>Replacing the updater\<close>

lemma callsAfter_append:
  "x \<in> set cs \<Longrightarrow> callsAfter x (cs @ suf) = callsAfter x cs @ suf"
  by (induction cs) auto

lemma callsAfter_fresh:
  "x \<notin> set cs \<Longrightarrow> callsAfter x (cs @ x # rest) = rest"
  by (induction cs) auto

lemma noInteractionAfterStop_append:
  assumes "noInteractionAfterStop u cs" and "list_all (\<lambda>c. target c \<noteq> u) suf"
  shows "noInteractionAfterStop u (cs @ suf)"
  using assms by (auto simp: noInteractionAfterStop_def callsAfter_append)

lemma retired_grow:
  assumes "retired u1 u2 (this, env)"
    and "list_all (\<lambda>c. target c \<noteq> u1) suf" and "Start u2 \<notin> set suf"
    and "constructed env \<le> k"
    and "cur \<noteq> Some u1" and "list_all (\<lambda>u. u < k) (case cur of None \<Rightarrow> [] | Some u \<Rightarrow> [u])"
  shows "retired u1 u2
           (this\<lparr>currentPullRequestUpdater := cur\<rparr>,
            env\<lparr>constructed := k, updaterCalls := updaterCalls env @ suf\<rparr>)"
proof -
  have "Stop u1 \<notin> set suf"
    using assms(2) by (auto simp: list_all_iff)
  then have "count_list suf (Stop u1) = 0" and "count_list suf (Start u2) = 0"
    using assms(3) by (simp_all add: count_list_0_iff)
  with assms noInteractionAfterStop_append [of u1 "updaterCalls env" suf] show ?thesis
    by (simp add: retired_def)
qed

lemma retired_stop:
  assumes "retired u1 u2 (this, env)"
  shows "retired u1 u2 (stopPullRequestUpdater (this, env))"
proof -
  let ?suf = "case currentPullRequestUpdater this of None \<Rightarrow> [] | Some u \<Rightarrow> [Stop u]"
  have "list_all (\<lambda>c. target c \<noteq> u1) ?suf" and "Start u2 \<notin> set ?suf"
    using assms by (auto simp: retired_def split: option.splits)
  from retired_grow [OF assms this, of "constructed env" None] show ?thesis
    by (simp add: stopPullRequestUpdater_eq)
qed

lemma retired_start:
  assumes "retired u1 u2 (this, env)"
  shows "retired u1 u2 (startPullRequestUpdater r a (this, env))"
proof -
  let ?n = "constructed env"
  let ?suf = "(case currentPullRequestUpdater this of None \<Rightarrow> [] | Some u \<Rightarrow> [Stop u])
     @ [New ?n (gitHubRepository r) a, Start ?n]"
  have lt: "u1 < ?n" "u2 < ?n"
    using assms by (simp_all add: retired_def)
  have "list_all (\<lambda>c. target c \<noteq> u1) ?suf" and "Start u2 \<notin> set ?suf"
    using assms lt by (auto simp: retired_def split: option.splits)
  from retired_grow [OF assms this, of "Suc ?n" "Some ?n"] lt show ?thesis
    by (simp add: startPullRequestUpdater_eq)
qed

lemma retired_step:
  assumes "retired u1 u2 s" and "step ev s = Inr s'"
  shows "retired u1 u2 s'"
proof -
  obtain this env where s: "s = (this, env)" by (cases s)
  show ?thesis
  proof (cases ev)
    case (DidUpdate all)
    with assms show ?thesis
      by (auto simp: s retired_def onDidUpdate_def)
  next
    case (PullRequestsChanged R prs)
    with assms show ?thesis
      by (auto simp: s retired_def onPullRequestsChanged_def forOf_recordPullRequestsChanged
          split: sum.splits)
  next
    case (IsLoadingPullRequests R b)
    with assms show ?thesis
      by (auto simp: s retired_def onIsLoadingPullRequests_def forOf_recordIsLoading
          split: sum.splits)
  next
    case (StartPullRequestUpdater r a)
    with assms retired_start [of u1 u2 this env r a] show ?thesis
      by (auto simp: s)
  next
    case StopPullRequestUpdater
    with assms retired_stop [of u1 u2 this env] show ?thesis
      by (auto simp: s)
  qed
qed

lemma retired_run:
  "retired u1 u2 s \<Longrightarrow> run es s = Inr s' \<Longrightarrow> retired u1 u2 s'"
proof (induction es arbitrary: s)
  case Nil
  then show ?case by simp
next
  case (Cons ev es)
  then show ?case
    by (auto split: sum.splits dest: retired_step)
qed

lemma retired_after_two_starts:
  assumes "consistent (this, env)"
  shows "retired (constructed env) (Suc (constructed env))
           (startPullRequestUpdater r2 a2 (startPullRequestUpdater r1 a1 (this, env)))"
proof -
  let ?n = "constructed env"
  let ?old = "updaterCalls env
     @ (case currentPullRequestUpdater this of None \<Rightarrow> [] | Some u \<Rightarrow> [Stop u])
     @ [New ?n (gitHubRepository r1) a1, Start ?n]"
  have old_lt: "list_all (\<lambda>c. target c < ?n) (updaterCalls env)"
    and cur_lt: "list_all (\<lambda>u. u < ?n) (case currentPullRequestUpdater this of None \<Rightarrow> [] | Some u \<Rightarrow> [u])"
    using assms by (simp_all add: consistent_def)
  have fresh: "Stop ?n \<notin> set ?old" "Start (Suc ?n) \<notin> set ?old"
    using old_lt cur_lt by (auto simp: list_all_iff split: option.splits)
  then have counts: "count_list ?old (Stop ?n) = 0" "count_list ?old (Start (Suc ?n)) = 0"
    by (simp_all only: count_list_0_iff not_False_eq_True)
  have calls: "updaterCalls (snd (startPullRequestUpdater r2 a2 (startPullRequestUpdater r1 a1 (this, env))))
      = ?old @ Stop ?n # [New (Suc ?n) (gitHubRepository r2) a2, Start (Suc ?n)]"
    by (simp add: startPullRequestUpdater_eq)
  have after: "callsAfter (Stop ?n) (?old @ Stop ?n # [New (Suc ?n) (gitHubRepository r2) a2, Start (Suc ?n)])
      = [New (Suc ?n) (gitHubRepository r2) a2, Start (Suc ?n)]"
    using fresh(1) by (rule callsAfter_fresh)
  have "noInteractionAfterStop ?n (?old @ Stop ?n # [New (Suc ?n) (gitHubRepository r2) a2, Start (Suc ?n)])"
    unfolding noInteractionAfterStop_def after by simp
  moreover have "count_list (?old @ Stop ?n # [New (Suc ?n) (gitHubRepository r2) a2, Start (Suc ?n)]) (Stop ?n) = 1"
    and "count_list (?old @ Stop ?n # [New (Suc ?n) (gitHubRepository r2) a2, Start (Suc ?n)]) (Start (Suc ?n)) = 1"
    using counts by (simp_all only: count_list_append) simp_all
  ultimately show ?thesis
    unfolding retired_def by (simp add: startPullRequestUpdater_eq)
qed

text \<open>
  C3. In any state the coordinator can reach, two calls of \<open>startPullRequestUpdater\<close>
  in succession construct two different updaters \<open>u1\<close> and \<open>u2\<close>; the second call stops
  \<open>u1\<close>, then constructs and starts \<open>u2\<close>. Whatever events follow, \<open>stop()\<close> has been
  called on \<open>u1\<close> exactly once and \<open>start()\<close> on \<open>u2\<close> exactly once, no call reaches \<open>u1\<close>
  after its \<open>stop()\<close>, and at every point of the log at most one updater is live.
\<close>

theorem startPullRequestUpdater_twice:
  assumes "run es0 initial = Inr s0"
  shows "\<exists>u1 u2 s3.
           currentPullRequestUpdater (fst (startPullRequestUpdater r1 a1 s0)) = Some u1
         \<and> currentPullRequestUpdater
             (fst (startPullRequestUpdater r2 a2 (startPullRequestUpdater r1 a1 s0))) = Some u2
         \<and> u1 \<noteq> u2
         \<and> updaterCalls (snd (startPullRequestUpdater r2 a2 (startPullRequestUpdater r1 a1 s0)))
             = updaterCalls (snd (startPullRequestUpdater r1 a1 s0))
               @ [Stop u1, New u2 (gitHubRepository r2) a2, Start u2]
         \<and> run es (startPullRequestUpdater r2 a2 (startPullRequestUpdater r1 a1 s0)) = Inr s3
         \<and> count_list (updaterCalls (snd s3)) (Stop u1) = 1
         \<and> count_list (updaterCalls (snd s3)) (Start u2) = 1
         \<and> noInteractionAfterStop u1 (updaterCalls (snd s3))
         \<and> atMostOneLive (updaterCalls (snd s3))"
proof -
  obtain this env where s0: "s0 = (this, env)" by (cases s0)
  let ?s1 = "startPullRequestUpdater r1 a1 s0"
  let ?s2 = "startPullRequestUpdater r2 a2 ?s1"
  from run_consistent [OF initial_consistent, of es0] assms have c0: "consistent (this, env)"
    by (simp add: s0)
  then have "consistent ?s1" unfolding s0 by (rule start_consistent)
  then have "consistent ?s2" by (cases ?s1) (simp add: start_consistent)
  from run_consistent [OF this, of es]
  obtain s3 where s3: "run es ?s2 = Inr s3" "consistent s3" by blast
  have "retired (constructed env) (Suc (constructed env)) ?s2"
    unfolding s0 using c0 by (rule retired_after_two_starts)
  from retired_run [OF this s3(1)] have r3: "retired (constructed env) (Suc (constructed env)) s3" .
  have "currentPullRequestUpdater (fst ?s1) = Some (constructed env)"
    and "currentPullRequestUpdater (fst ?s2) = Some (Suc (constructed env))"
    and "updaterCalls (snd ?s2) = updaterCalls (snd ?s1)
           @ [Stop (constructed env), New (Suc (constructed env)) (gitHubRepository r2) a2,
              Start (Suc (constructed env))]"
    by (simp_all add: s0 startPullRequestUpdater_eq)
  moreover have "count_list (updaterCalls (snd s3)) (Stop (constructed env)) = 1"
    and "count_list (updaterCalls (snd s3)) (Start (Suc (constructed env))) = 1"
    and "noInteractionAfterStop (constructed env) (updaterCalls (snd s3))"
    using r3 by (cases s3; simp add: retired_def)+
  moreover have "atMostOneLive (updaterCalls (snd s3))"
    using s3(2) by (cases s3) (simp add: consistent_def)
  ultimately show ?thesis
    using s3(1) by (intro exI [of _ "constructed env"] exI [of _ "Suc (constructed env)"] exI [of _ s3]) simp
qed

theorem startPullRequestUpdater_twice_witness:
  "run [DidUpdate [cloneU, localOnly, cloneF]] initial = Inr (holding [cloneU, cloneF], quiet)
   \<and> run [StopPullRequestUpdater]
         (startPullRequestUpdater cloneF ''bob''
           (startPullRequestUpdater cloneU ''alice'' (holding [cloneU, cloneF], quiet)))
       = Inr (holding [cloneU, cloneF],
           \<lparr>constructed = 2,
            updaterCalls =
              [New 0 (gitHubRepository cloneU) ''alice'', Start 0, Stop 0,
               New 1 (gitHubRepository cloneF) ''bob'', Start 1, Stop 1],
            notifications = []\<rparr>)
   \<and> count_list
         [New 0 (gitHubRepository cloneU) ''alice'', Start 0, Stop 0,
          New 1 (gitHubRepository cloneF) ''bob'', Start 1, Stop 1] (Stop 0) = 1
   \<and> count_list
         [New 0 (gitHubRepository cloneU) ''alice'', Start 0, Stop 0,
          New 1 (gitHubRepository cloneF) ''bob'', Start 1, Stop 1] (Start 1) = 1
   \<and> noInteractionAfterStop 0
         [New 0 (gitHubRepository cloneU) ''alice'', Start 0, Stop 0,
          New 1 (gitHubRepository cloneF) ''bob'', Start 1, Stop 1]
   \<and> atMostOneLive
         [New 0 (gitHubRepository cloneU) ''alice'', Start 0, Stop 0,
          New 1 (gitHubRepository cloneF) ''bob'', Start 1, Stop 1]"
proof -
  let ?s0 = "(holding [cloneU, cloneF], quiet)"
  let ?s1 = "startPullRequestUpdater cloneU ''alice'' ?s0"
  let ?s2 = "startPullRequestUpdater cloneF ''bob'' ?s1"
  let ?calls = "[New 0 (gitHubRepository cloneU) ''alice'', Start 0, Stop 0,
          New 1 (gitHubRepository cloneF) ''bob'', Start 1, Stop 1]"
  let ?end = "(holding [cloneU, cloneF],
           \<lparr>constructed = 2, updaterCalls = ?calls, notifications = []\<rparr>)"
  have h: "run [DidUpdate [cloneU, localOnly, cloneF]] initial = Inr ?s0"
    by (simp add: evaluation fixtures)
  have first: "currentPullRequestUpdater (fst ?s1) = Some 0"
    and second: "currentPullRequestUpdater (fst ?s2) = Some 1"
    and final: "run [StopPullRequestUpdater] ?s2 = Inr ?end"
    by (simp_all add: evaluation holding_def quiet_def)
  from startPullRequestUpdater_twice [OF h, where ?r1.0 = cloneU and ?a1.0 = "''alice''"
      and ?r2.0 = cloneF and ?a2.0 = "''bob''" and es = "[StopPullRequestUpdater]"]
  obtain u1 u2 s3 where
    o1: "currentPullRequestUpdater (fst ?s1) = Some u1" and
    o2: "currentPullRequestUpdater (fst ?s2) = Some u2" and
    o3: "run [StopPullRequestUpdater] ?s2 = Inr s3" and
    props: "count_list (updaterCalls (snd s3)) (Stop u1) = 1"
      "count_list (updaterCalls (snd s3)) (Start u2) = 1"
      "noInteractionAfterStop u1 (updaterCalls (snd s3))"
      "atMostOneLive (updaterCalls (snd s3))"
    by blast
  have u1: "u1 = 0" and u2: "u2 = 1"
    using first second o1 o2 by simp_all
  have "Inr s3 = (Inr ?end :: (int, string, nat) state completion)"
    using o3 [symmetric] final by (rule trans)
  then have s3: "updaterCalls (snd s3) = ?calls"
    by auto
  note observed = props [unfolded s3 u1 u2]
  with h final show ?thesis by blast
qed

subsection \<open>Local refs\<close>

text \<open>
  C10. For every branch name, \<open>formatAsLocalRef\<close> returns a ref that begins with
  \<open>refs/heads/\<close>: the name behind \<open>refs/\<close> when it starts with \<open>heads/\<close>, and the name
  behind \<open>refs/heads/\<close> otherwise.
\<close>

theorem formatAsLocalRef_qualified:
  "startsWith (formatAsLocalRef name) ''refs/heads/''
   \<and> (startsWith name ''heads/'' \<longrightarrow> formatAsLocalRef name = ''refs/'' @ name)
   \<and> (\<not> startsWith name ''heads/'' \<longrightarrow> formatAsLocalRef name = ''refs/heads/'' @ name)"
  by (auto simp: formatAsLocalRef_def startsWith_def prefix_def)

theorem formatAsLocalRef_qualified_witness:
  "startsWith ''heads/Microsoft/master'' ''heads/''
   \<and> formatAsLocalRef ''heads/Microsoft/master'' = ''refs/heads/Microsoft/master''
   \<and> \<not> startsWith ''master'' ''heads/''
   \<and> formatAsLocalRef ''master'' = ''refs/heads/master''
   \<and> startsWith (formatAsLocalRef ''master'') ''refs/heads/''"
  using formatAsLocalRef_qualified [of "''heads/Microsoft/master''"]
    formatAsLocalRef_qualified [of "''master''"]
  by (simp add: startsWith_def)

end
